theory Spec2Isabelle
  imports Main "HOL-Library.Word" "HOL-Library.AList"
begin

section \<open>The capture analysis of server.js (the /api/upload handler)\<close>

text \<open>
  The handler of \<^verbatim>\<open>POST /api/upload\<close> feeds the uploaded file to the pcap-parser
  package and reacts to its three events: \<^verbatim>\<open>packet\<close> (one per frame), \<^verbatim>\<open>end\<close> and
  \<^verbatim>\<open>error\<close>. Everything the three handlers do is embedded below, statement by
  statement; the package itself is not part of the repository and is modelled after the
  handlers, from the bytes of the capture to the events it emits.
\<close>

subsection \<open>Data\<close>

type_synonym byte = "8 word"

text \<open>A packet event carries a Buffer \<^verbatim>\<open>data\<close> and, possibly, a \<^verbatim>\<open>header\<close> object whose
  \<^verbatim>\<open>orig_len\<close> property may be missing.\<close>

record pkt_header =
  orig_len :: "nat option"

record packet =
  data :: "byte list"
  header :: "pkt_header option"

text \<open>The object pushed on \<^verbatim>\<open>packetDetails\<close>.\<close>

record packet_detail =
  srcIP :: string
  dstIP :: string
  protocol :: string
  packetSize :: nat

text \<open>The object pushed on \<^verbatim>\<open>threats\<close>.\<close>

record threat =
  type :: string
  description :: string

text \<open>
  The variables declared in the handler before the parser is created:
  \<^verbatim>\<open>totalPackets\<close>, \<^verbatim>\<open>packetDetails\<close>, \<^verbatim>\<open>threats\<close> and \<^verbatim>\<open>connectionCounts\<close>. The first three
  are also the fields of \<^verbatim>\<open>analysisResult\<close>, which adds \<^verbatim>\<open>timestamp\<close>; both records extend
  the common part. \<^verbatim>\<open>connectionCounts\<close> is a plain object with string keys:
  \<^verbatim>\<open>Object.entries\<close> lists them in insertion order, so it is an association list in which
  an assignment to an existing key keeps the key's position.
\<close>

record run_vars =
  totalPackets :: nat
  packetDetails :: "packet_detail list"
  threats :: "threat list"

record state = run_vars +
  connectionCounts :: "(string \<times> nat) list"

record analysisResult = run_vars +
  timestamp :: string

datatype js_error = RangeError

subsection \<open>Buffers, numbers and template strings\<close>

text \<open>\<^verbatim>\<open>buf[i]\<close>: the byte at index i, or undefined (None) outside the buffer.\<close>

definition index :: "byte list \<Rightarrow> nat \<Rightarrow> byte option" where
  "index buf i = (if i < length buf then Some (buf ! i) else None)"

text \<open>\<^verbatim>\<open>buf.readUInt16BE(offset)\<close> of Node: it reads \<^verbatim>\<open>this[offset]\<close> and
  \<^verbatim>\<open>this[offset + 1]\<close>, throws a RangeError when either is undefined and returns
  \<^verbatim>\<open>first * 2 ** 8 + last\<close> otherwise.\<close>

definition readUInt16BE :: "byte list \<Rightarrow> nat \<Rightarrow> js_error + nat" where
  "readUInt16BE buf offset =
     (case index buf offset of
        None \<Rightarrow> Inl RangeError
      | Some first \<Rightarrow>
          (case index buf (offset + 1) of
             None \<Rightarrow> Inl RangeError
           | Some last' \<Rightarrow> Inr (unat first * 2 ^ 8 + unat last')))"

text \<open>The decimal rendering of a non-negative integer, as a template string prints it.\<close>

definition digit_char :: "nat \<Rightarrow> char" where
  "digit_char d = ''0123456789'' ! d"

fun show_nat :: "nat \<Rightarrow> string" where
  "show_nat n = (if n < 10 then [digit_char n] else show_nat (n div 10) @ [digit_char (n mod 10)])"

declare show_nat.simps [simp del]

text \<open>\<^verbatim>\<open>${buf[i]}\<close>: the decimal value of the byte, or the text "undefined".\<close>

definition tmpl_byte :: "byte option \<Rightarrow> string" where
  "tmpl_byte v = (case v of None \<Rightarrow> ''undefined'' | Some b \<Rightarrow> show_nat (unat b))"

text \<open>The dotted rendering of four consecutive buffer positions, as for \<^verbatim>\<open>srcIP\<close> (from 26)
  and \<^verbatim>\<open>dstIP\<close> (from 30).\<close>

definition dotted :: "byte list \<Rightarrow> nat \<Rightarrow> string" where
  "dotted buf i =
     tmpl_byte (index buf i) @ ''.'' @ tmpl_byte (index buf (i + 1)) @ ''.'' @
     tmpl_byte (index buf (i + 2)) @ ''.'' @ tmpl_byte (index buf (i + 3))"

definition protoName :: "byte option \<Rightarrow> string" where
  "protoName proto =
     (if proto = Some 6 then ''TCP''
      else if proto = Some 17 then ''UDP''
      else if proto = Some 1 then ''ICMP''
      else ''Unknown ('' @ tmpl_byte proto @ '')'')"

text \<open>\<^verbatim>\<open>packet.data.length || packet.header?.orig_len || 0\<close>: the first operand that is
  neither 0 nor undefined, and 0 when there is none.\<close>

definition packetLength :: "packet \<Rightarrow> nat" where
  "packetLength pkt =
     (if length (data pkt) \<noteq> 0 then length (data pkt)
      else (case header pkt of
              None \<Rightarrow> 0
            | Some h \<Rightarrow> (case orig_len h of None \<Rightarrow> 0 | Some n \<Rightarrow> n)))"

definition connectionKey :: "string \<Rightarrow> string \<Rightarrow> string" where
  "connectionKey s d = s @ ''->'' @ d"

text \<open>\<^verbatim>\<open>connectionCounts[key] || 0\<close>.\<close>

definition count_or_zero :: "(string \<times> nat) list \<Rightarrow> string \<Rightarrow> nat" where
  "count_or_zero cc k = (case map_of cc k of None \<Rightarrow> 0 | Some c \<Rightarrow> c)"

subsection \<open>The packet handler\<close>

text \<open>The body of the \<^verbatim>\<open>try\<close> block: it either throws (Inl) or returns the updated state.\<close>

definition try_block :: "state \<Rightarrow> packet \<Rightarrow> js_error + state" where
  "try_block st pkt =
     (case readUInt16BE (data pkt) 12 of
        Inl e \<Rightarrow> Inl e
      | Inr ethertype \<Rightarrow>
          if ethertype = 0x0800 then
            (let src = dotted (data pkt) 26;
                 dst = dotted (data pkt) 30;
                 protoName' = protoName (index (data pkt) 23);
                 key = connectionKey src dst
             in Inr (st\<lparr>packetDetails := packetDetails st @
                          [\<lparr>srcIP = src, dstIP = dst, protocol = protoName',
                            packetSize = packetLength pkt\<rparr>],
                        connectionCounts :=
                          AList.update key (count_or_zero (connectionCounts st) key + 1)
                            (connectionCounts st)\<rparr>))
          else Inr st)"

text \<open>\<^verbatim>\<open>totalPackets++\<close>, then the \<^verbatim>\<open>try\<close> block, whose exception the \<^verbatim>\<open>catch\<close> logs and
  drops.\<close>

definition on_packet :: "state \<Rightarrow> packet \<Rightarrow> state" where
  "on_packet st pkt =
     (let st1 = st\<lparr>totalPackets := totalPackets st + 1\<rparr>
      in case try_block st1 pkt of Inl e \<Rightarrow> st1 | Inr st2 \<Rightarrow> st2)"

definition init_state :: state where
  "init_state = \<lparr>totalPackets = 0, packetDetails = [], threats = [], connectionCounts = []\<rparr>"

definition run_packets :: "packet list \<Rightarrow> state" where
  "run_packets fs = foldl on_packet init_state fs"

subsection \<open>The end handler\<close>

definition ddos_threat :: "string \<Rightarrow> nat \<Rightarrow> threat" where
  "ddos_threat connection count =
     \<lparr>type = ''Potential DDoS'',
      description = ''High traffic detected on connection '' @ connection @ '' with '' @
                    show_nat count @ '' packets.''\<rparr>"

definition scan_threat :: "string \<Rightarrow> nat \<Rightarrow> threat" where
  "scan_threat src n =
     \<lparr>type = ''Potential Port Scan'',
      description = ''Source IP '' @ src @ '' connected to '' @ show_nat n @
                    '' unique destinations.''\<rparr>"

text \<open>The loop over \<^verbatim>\<open>Object.entries(connectionCounts)\<close>.\<close>

definition ddos_loop :: "threat list \<Rightarrow> (string \<times> nat) list \<Rightarrow> threat list" where
  "ddos_loop ths cc =
     foldl (\<lambda>ths (connection, count).
              if count > 100 then ths @ [ddos_threat connection count] else ths) ths cc"

text \<open>A JavaScript Set of strings keeps its members in insertion order without
  repetition; \<^verbatim>\<open>size\<close> is their number.\<close>

definition set_add :: "string \<Rightarrow> string list \<Rightarrow> string list" where
  "set_add x s = (if x \<in> set s then s else s @ [x])"

text \<open>The \<^verbatim>\<open>forEach\<close> that builds \<^verbatim>\<open>portScanSources\<close> from \<^verbatim>\<open>packetDetails\<close>.\<close>

definition scan_step :: "(string \<times> string list) list \<Rightarrow> packet_detail \<Rightarrow> (string \<times> string list) list" where
  "scan_step m p =
     (let key = srcIP p;
          s = (case map_of m key of None \<Rightarrow> [] | Some s \<Rightarrow> s)
      in AList.update key (set_add (dstIP p) s) m)"

definition portScanSources :: "packet_detail list \<Rightarrow> (string \<times> string list) list" where
  "portScanSources ps = foldl scan_step [] ps"

text \<open>The loop over \<^verbatim>\<open>Object.entries(portScanSources)\<close>.\<close>

definition scan_loop :: "threat list \<Rightarrow> (string \<times> string list) list \<Rightarrow> threat list" where
  "scan_loop ths m =
     foldl (\<lambda>ths (src, dstIPs).
              if length dstIPs > 20 then ths @ [scan_threat src (length dstIPs)] else ths) ths m"

definition on_end :: "string \<Rightarrow> state \<Rightarrow> analysisResult" where
  "on_end now st =
     (let ths1 = ddos_loop (threats st) (connectionCounts st);
          ths2 = scan_loop ths1 (portScanSources (packetDetails st))
      in \<lparr>totalPackets = totalPackets st, packetDetails = packetDetails st,
          threats = ths2, timestamp = now\<rparr>)"

subsection \<open>The events of a request\<close>








subsection \<open>The parser\<close>








subsection \<open>The request and the server\<close>



subsection \<open>Notions used in the statements\<close>

text \<open>
  The entry the \<^verbatim>\<open>try\<close> block pushes for a frame, if it pushes one: the computation of
  the block with the state left out. Lemma \<open>packetDetails_on_packet\<close> below shows that
  this is what the handler appends.
\<close>

definition decode :: "packet \<Rightarrow> packet_detail option" where
  "decode pkt =
     (case readUInt16BE (data pkt) 12 of
        Inl e \<Rightarrow> None
      | Inr ethertype \<Rightarrow>
          if ethertype = 0x0800 then
            Some \<lparr>srcIP = dotted (data pkt) 26, dstIP = dotted (data pkt) 30,
                  protocol = protoName (index (data pkt) 23), packetSize = packetLength pkt\<rparr>
          else None)"

text \<open>The connection key of an entry, and the assignment
  \<^verbatim>\<open>connectionCounts[k] = (connectionCounts[k] || 0) + 1\<close> on its own.\<close>

definition key_of :: "packet_detail \<Rightarrow> string" where
  "key_of p = connectionKey (srcIP p) (dstIP p)"

definition bump :: "(string \<times> nat) list \<Rightarrow> string \<Rightarrow> (string \<times> nat) list" where
  "bump cc k = AList.update k (count_or_zero cc k + 1) cc"

text \<open>The decimal digits, for reading a number back out of a description.\<close>

definition is_digit :: "char \<Rightarrow> bool" where
  "is_digit c = (c \<in> set ''0123456789'')"

text \<open>\<^verbatim>\<open>portScanSources[s] || new Set()\<close>, and a run of \<^verbatim>\<open>add\<close> calls on one Set.\<close>

definition dsts_of :: "(string \<times> string list) list \<Rightarrow> string \<Rightarrow> string list" where
  "dsts_of m s = (case map_of m s of None \<Rightarrow> [] | Some ds \<Rightarrow> ds)"

definition add_all :: "string list \<Rightarrow> string list \<Rightarrow> string list" where
  "add_all acc ds = foldl (\<lambda>acc d. set_add d acc) acc ds"

text \<open>
  The protocol naming as the specification words it: 6 is TCP, 17 is UDP, 1 is ICMP, and
  any other value N is \<^verbatim>\<open>Unknown(N)\<close>. It is compared with \<open>protoName\<close> below.
\<close>

definition spec_protoName :: "byte \<Rightarrow> string" where
  "spec_protoName n =
     (if n = 6 then ''TCP''
      else if n = 17 then ''UDP''
      else if n = 1 then ''ICMP''
      else ''Unknown('' @ show_nat (unat n) @ '')'')"

text \<open>The names \<open>protoName\<close> can produce.\<close>

definition protocol_names :: "string set" where
  "protocol_names =
     {''TCP'', ''UDP'', ''ICMP'', ''Unknown (undefined)''} \<union>
     (\<lambda>n. ''Unknown ('' @ show_nat n @ '')'') ` ({0..<256} - {1, 6, 17})"

subsection \<open>Sample frames\<close>

text \<open>
  An Ethernet frame with ethertype 0x0800 and a 20-byte IPv4 header carrying the given
  protocol byte and addresses; the same frame cut after the ethertype (14 bytes); a
  3-byte fragment; and an ARP frame (ethertype 0x0806).
\<close>

definition ip_frame :: "byte \<Rightarrow> byte list \<Rightarrow> byte list \<Rightarrow> packet" where
  "ip_frame proto src dst =
     \<lparr>data = [0, 0, 0, 0, 0, 0, 0, 0, 0, 0, 0, 0, 8, 0,
              69, 0, 0, 20, 0, 0, 0, 0, 64, proto, 0, 0] @ src @ dst,
      header = None\<rparr>"

definition tcp_frame :: packet where
  "tcp_frame = ip_frame 6 [10, 0, 0, 1] [10, 0, 0, 2]"

definition short_ipv4_frame :: packet where
  "short_ipv4_frame = \<lparr>data = [0, 0, 0, 0, 0, 0, 0, 0, 0, 0, 0, 0, 8, 0], header = None\<rparr>"

definition tiny_frame :: packet where
  "tiny_frame = \<lparr>data = [1, 2, 3], header = Some \<lparr>orig_len = Some 60\<rparr>\<rparr>"

definition arp_frame :: packet where
  "arp_frame =
     \<lparr>data = [255, 255, 255, 255, 255, 255, 0, 0, 0, 0, 0, 1, 8, 6,
              0, 1, 8, 0, 6, 4, 0, 1, 0, 0, 0, 0, 0, 1, 10, 0, 0, 1,
              0, 0, 0, 0, 0, 0, 10, 0, 0, 2],
      header = None\<rparr>"

text \<open>A UDP probe from 10.0.0.1 to 10.0.1.d, and 21 distinct values for d.\<close>

definition probe_frame :: "byte \<Rightarrow> packet" where
  "probe_frame d = ip_frame 17 [10, 0, 0, 1] [10, 0, 1, d]"

definition dests21 :: "byte list" where
  "dests21 = [1, 2, 3, 4, 5, 6, 7, 8, 9, 10, 11, 12, 13, 14, 15, 16, 17, 18, 19, 20, 21]"

subsection \<open>Sample captures\<close>









section \<open>Properties\<close>

subsection \<open>One packet event\<close>

lemma totalPackets_on_packet: "totalPackets (on_packet st pkt) = totalPackets st + 1"
  by (simp add: on_packet_def try_block_def Let_def split: sum.splits)

lemma threats_on_packet: "threats (on_packet st pkt) = threats st"
  by (simp add: on_packet_def try_block_def Let_def split: sum.splits)

lemma packetDetails_on_packet:
  "packetDetails (on_packet st pkt) =
     packetDetails st @ (case decode pkt of None \<Rightarrow> [] | Some p \<Rightarrow> [p])"
  by (simp add: on_packet_def try_block_def decode_def Let_def split: sum.splits)

lemma connectionCounts_on_packet:
  "connectionCounts (on_packet st pkt) =
     (case decode pkt of None \<Rightarrow> connectionCounts st
      | Some p \<Rightarrow> bump (connectionCounts st) (key_of p))"
  by (simp add: on_packet_def try_block_def decode_def key_of_def bump_def Let_def
        split: sum.splits)

subsection \<open>A whole stream of packet events\<close>

lemma totalPackets_foldl:
  "totalPackets (foldl on_packet st fs) = totalPackets st + length fs"
  by (induction fs arbitrary: st) (simp_all add: totalPackets_on_packet)

lemma threats_foldl: "threats (foldl on_packet st fs) = threats st"
  by (induction fs arbitrary: st) (simp_all add: threats_on_packet)

lemma packetDetails_foldl:
  "packetDetails (foldl on_packet st fs) = packetDetails st @ List.map_filter decode fs"
  by (induction fs arbitrary: st)
     (simp_all add: packetDetails_on_packet split: option.splits)

lemma connectionCounts_foldl:
  "connectionCounts (foldl on_packet st fs) =
     foldl bump (connectionCounts st) (map key_of (List.map_filter decode fs))"
  by (induction fs arbitrary: st)
     (simp_all add: connectionCounts_on_packet split: option.splits)

lemma length_map_filter_le: "length (List.map_filter f xs) \<le> length xs"
  by (induction xs) (simp_all split: option.splits)

text \<open>
  Claim C3. Whatever frames the reader yields, the \<^verbatim>\<open>totalPackets\<close> of the result is
  their number, IPv4 or not, and \<^verbatim>\<open>packetDetails\<close> has at most that many entries.
\<close>

theorem totalPackets_counts_frames:
  "totalPackets (on_end now (run_packets fs)) = length fs \<and>
   length (packetDetails (on_end now (run_packets fs)))
     \<le> totalPackets (on_end now (run_packets fs))"
  by (simp add: on_end_def run_packets_def Let_def totalPackets_foldl packetDetails_foldl
        init_state_def length_map_filter_le)

subsection \<open>Decimal numbers and the texts of findings\<close>

lemma digit_char_inj: "d < 10 \<Longrightarrow> e < 10 \<Longrightarrow> digit_char d = digit_char e \<Longrightarrow> d = e"
proof -
  assume d: "d < 10" and e: "e < 10" and eq: "digit_char d = digit_char e"
  have dist: "distinct ''0123456789''" by simp
  have "d < length ''0123456789''" "e < length ''0123456789''" using d e by simp_all
  with dist eq show "d = e" unfolding digit_char_def by (simp only: nth_eq_iff_index_eq)
qed

lemma is_digit_digit_char: "d < 10 \<Longrightarrow> is_digit (digit_char d)"
  unfolding is_digit_def digit_char_def by (rule nth_mem) simp

lemma show_nat_not_Nil: "show_nat n \<noteq> []"
  by (subst show_nat.simps) simp

lemma show_nat_digits: "c \<in> set (show_nat n) \<Longrightarrow> is_digit c"
proof (induction n arbitrary: c rule: show_nat.induct)
  case (1 n)
  show ?case
  proof (cases "n < 10")
    case True
    with "1.prems" show ?thesis
      by (subst (asm) show_nat.simps) (simp add: is_digit_digit_char)
  next
    case False
    with "1.prems" have "c \<in> set (show_nat (n div 10)) \<or> c = digit_char (n mod 10)"
      by (subst (asm) show_nat.simps) auto
    then show ?thesis using "1.IH" False by (auto simp: is_digit_digit_char)
  qed
qed

lemma show_nat_inj: "show_nat m = show_nat n \<Longrightarrow> m = n"
proof (induction m arbitrary: n rule: show_nat.induct)
  case (1 m)
  show ?case
  proof (cases "m < 10")
    case m: True
    show ?thesis
    proof (cases "n < 10")
      case True
      with m "1.prems" show ?thesis
        by (simp add: show_nat.simps[of m] show_nat.simps[of n] digit_char_inj)
    next
      case False
      with m "1.prems" show ?thesis
        by (simp add: show_nat.simps[of m] show_nat.simps[of n] show_nat_not_Nil[THEN not_sym])
    qed
  next
    case m: False
    show ?thesis
    proof (cases "n < 10")
      case True
      with m "1.prems" show ?thesis
        by (simp add: show_nat.simps[of m] show_nat.simps[of n] show_nat_not_Nil)
    next
      case False
      with m "1.prems" have a: "show_nat (m div 10) = show_nat (n div 10)"
        and b: "digit_char (m mod 10) = digit_char (n mod 10)"
        by (simp_all add: show_nat.simps[of m] show_nat.simps[of n])
      from "1.IH"[OF m a] have "m div 10 = n div 10" .
      moreover from b have "m mod 10 = n mod 10" by (intro digit_char_inj) simp_all
      ultimately show ?thesis by (metis div_mult_mod_eq)
    qed
  qed
qed

lemma split_at_last_nondigit:
  assumes "a @ s # ds = a' @ s # ds'"
    and "\<forall>c\<in>set ds. P c" and "\<forall>c\<in>set ds'. P c" and "\<not> P s"
  shows "a = a' \<and> ds = ds'"
proof -
  have "rev ds @ s # rev a = rev ds' @ s # rev a'"
    using arg_cong[OF assms(1), of rev] by simp
  then have "takeWhile P (rev ds @ s # rev a) = takeWhile P (rev ds' @ s # rev a')" by simp
  then have "takeWhile P (rev ds) = takeWhile P (rev ds')"
    using assms(4) by (simp add: takeWhile_tail)
  moreover have "takeWhile P (rev ds) = rev ds" "takeWhile P (rev ds') = rev ds'"
    using assms(2,3) by (simp_all add: takeWhile_eq_all_conv)
  ultimately have "rev ds = rev ds'" by simp
  then have "ds = ds'" by simp
  with assms(1) show ?thesis by simp
qed

lemma numbered_text_inj:
  assumes "k @ sep @ CHR '' '' # show_nat c @ post = k' @ sep @ CHR '' '' # show_nat c' @ post"
  shows "k = k' \<and> c = c'"
proof -
  have "((k @ sep) @ CHR '' '' # show_nat c) @ post = ((k' @ sep) @ CHR '' '' # show_nat c') @ post"
    using assms by simp
  then have "(k @ sep) @ CHR '' '' # show_nat c = (k' @ sep) @ CHR '' '' # show_nat c'"
    by (simp only: append_same_eq)
  moreover have "\<not> is_digit (CHR '' '')" by (simp add: is_digit_def)
  ultimately have "k @ sep = k' @ sep \<and> show_nat c = show_nat c'"
    by (intro split_at_last_nondigit[where P = is_digit]) (auto simp: show_nat_digits)
  then show ?thesis by (auto dest: show_nat_inj)
qed

lemma ddos_threat_inj: "ddos_threat k c = ddos_threat k' c' \<longleftrightarrow> k = k' \<and> c = c'"
proof
  assume "ddos_threat k c = ddos_threat k' c'"
  then have "k @ '' with'' @ CHR '' '' # show_nat c @ '' packets.'' =
             k' @ '' with'' @ CHR '' '' # show_nat c' @ '' packets.''"
    by (simp add: ddos_threat_def)
  then show "k = k' \<and> c = c'" by (rule numbered_text_inj)
qed simp

lemma scan_threat_inj: "scan_threat k c = scan_threat k' c' \<longleftrightarrow> k = k' \<and> c = c'"
proof
  assume "scan_threat k c = scan_threat k' c'"
  then have "k @ '' connected to'' @ CHR '' '' # show_nat c @ '' unique destinations.'' =
             k' @ '' connected to'' @ CHR '' '' # show_nat c' @ '' unique destinations.''"
    by (simp add: scan_threat_def)
  then show "k = k' \<and> c = c'" by (rule numbered_text_inj)
qed simp

lemma ddos_neq_scan: "ddos_threat k c \<noteq> scan_threat s n"
  by (simp add: ddos_threat_def scan_threat_def)

subsection \<open>The loops of the end handler\<close>

lemma ddos_loop_eq:
  "ddos_loop ths cc =
     ths @ map (\<lambda>(k, c). ddos_threat k c) (filter (\<lambda>(k, c). c > 100) cc)"
  unfolding ddos_loop_def
  by (induction cc arbitrary: ths) (auto split: prod.splits)

lemma scan_loop_eq:
  "scan_loop ths m =
     ths @ map (\<lambda>(s, ds). scan_threat s (length ds)) (filter (\<lambda>(s, ds). length ds > 20) m)"
  unfolding scan_loop_def
  by (induction m arbitrary: ths) (auto split: prod.splits)

lemma count_mapped_entries:
  assumes dist: "distinct (map fst xs)"
    and names: "\<And>a b. (a, b) \<in> set xs \<Longrightarrow> h (a, b) = t \<longleftrightarrow> a = k \<and> g b = n"
  shows "length (filter (\<lambda>u. u = t) (map h (filter Q xs))) =
           (case map_of xs k of None \<Rightarrow> 0
            | Some v \<Rightarrow> if g v = n \<and> Q (k, v) then 1 else 0)"
proof -
  define cnt where "cnt ys = length (filter (\<lambda>u. u = t) (map h (filter Q ys)))" for ys
  have cnt_Cons: "cnt (y # ys) = (if Q y \<and> h y = t then 1 else 0) + cnt ys" for y ys
    by (simp add: cnt_def)
  have cnt_zero: "cnt ys = 0" if "\<And>y. y \<in> set ys \<Longrightarrow> h y \<noteq> t" for ys
    using that by (induction ys) (simp_all add: cnt_Cons, simp add: cnt_def)
  have "cnt xs = (case map_of xs k of None \<Rightarrow> 0
                  | Some v \<Rightarrow> if g v = n \<and> Q (k, v) then 1 else 0)"
    using dist names
  proof (induction xs)
    case Nil
    then show ?case by (simp add: cnt_def)
  next
    case (Cons x xs)
    obtain a b where x: "x = (a, b)" by (cases x)
    have IH: "cnt xs = (case map_of xs k of None \<Rightarrow> 0
                        | Some v \<Rightarrow> if g v = n \<and> Q (k, v) then 1 else 0)"
      using Cons by simp
    have hx: "h (a, b) = t \<longleftrightarrow> a = k \<and> g b = n" using Cons.prems(2)[of a b] x by simp
    show ?case
    proof (cases "a = k")
      case True
      then have notin: "k \<notin> fst ` set xs" using Cons.prems(1) x by auto
      have "h y \<noteq> t" if "y \<in> set xs" for y
      proof -
        obtain a' b' where y: "y = (a', b')" by (cases y)
        then have "a' \<noteq> k" using notin that by force
        then show ?thesis using Cons.prems(2)[of a' b'] y that by simp
      qed
      then have "cnt xs = 0" by (rule cnt_zero)
      then show ?thesis using True x hx by (simp add: cnt_Cons)
    next
      case False
      then show ?thesis using x hx IH by (simp add: cnt_Cons)
    qed
  qed
  then show ?thesis by (simp add: cnt_def)
qed

lemma map_of_bump: "map_of (bump cc k) = (map_of cc)(k \<mapsto> count_or_zero cc k + 1)"
  by (simp add: bump_def update_conv')

lemma distinct_bump: "distinct (map fst cc) \<Longrightarrow> distinct (map fst (bump cc k))"
  by (simp add: bump_def distinct_update)

lemma distinct_foldl_bump:
  "distinct (map fst cc) \<Longrightarrow> distinct (map fst (foldl bump cc ks))"
  by (induction ks arbitrary: cc) (simp_all add: distinct_bump)

lemma map_of_foldl_bump:
  "map_of (foldl bump cc ks) k =
     (if k \<in> set ks then Some (count_or_zero cc k + count_list ks k) else map_of cc k)"
proof (induction ks arbitrary: cc)
  case Nil
  then show ?case by simp
next
  case (Cons x ks)
  show ?case
    by (simp add: Cons.IH map_of_bump count_or_zero_def split: option.splits)
qed

lemma count_list_filter: "count_list (map f xs) k = length (filter (\<lambda>x. f x = k) xs)"
  by (induction xs) simp_all

lemma map_of_connectionCounts:
  "map_of (connectionCounts (run_packets fs)) k =
     (let n = length (filter (\<lambda>p. key_of p = k) (packetDetails (run_packets fs)))
      in if n = 0 then None else Some n)"
proof -
  let ?ps = "List.map_filter decode fs"
  have "map_of (connectionCounts (run_packets fs)) k =
        (if k \<in> set (map key_of ?ps) then Some (count_list (map key_of ?ps) k) else None)"
    by (simp add: run_packets_def connectionCounts_foldl init_state_def map_of_foldl_bump
          count_or_zero_def)
  also have "\<dots> = (if count_list (map key_of ?ps) k = 0 then None
                    else Some (count_list (map key_of ?ps) k))"
    by (simp add: count_list_0_iff)
  finally show ?thesis
    by (simp add: count_list_filter run_packets_def packetDetails_foldl init_state_def Let_def)
qed

lemma distinct_connectionCounts: "distinct (map fst (connectionCounts (run_packets fs)))"
  by (simp add: run_packets_def connectionCounts_foldl init_state_def distinct_foldl_bump)

lemma map_of_scan_step:
  "map_of (scan_step m p) = (map_of m)(srcIP p \<mapsto> set_add (dstIP p) (dsts_of m (srcIP p)))"
  by (simp add: scan_step_def dsts_of_def update_conv' Let_def)

lemma distinct_scan_step: "distinct (map fst m) \<Longrightarrow> distinct (map fst (scan_step m p))"
  by (simp add: scan_step_def distinct_update Let_def)

lemma distinct_foldl_scan_step:
  "distinct (map fst m) \<Longrightarrow> distinct (map fst (foldl scan_step m ps))"
  by (induction ps arbitrary: m) (simp_all add: distinct_scan_step)

lemma add_all_Cons: "add_all acc (d # ds) = add_all (set_add d acc) ds"
  by (simp add: add_all_def)

lemma set_add_all: "set (add_all acc ds) = set acc \<union> set ds"
  by (induction ds arbitrary: acc) (auto simp: add_all_Cons set_add_def, simp_all add: add_all_def)

lemma distinct_add_all: "distinct acc \<Longrightarrow> distinct (add_all acc ds)"
  by (induction ds arbitrary: acc) (simp_all add: add_all_Cons set_add_def, simp add: add_all_def)

lemma map_of_foldl_scan_step:
  "map_of (foldl scan_step m ps) s =
     (if s \<in> srcIP ` set ps
      then Some (add_all (dsts_of m s) (map dstIP (filter (\<lambda>p. srcIP p = s) ps)))
      else map_of m s)"
proof (induction ps arbitrary: m)
  case Nil
  then show ?case by simp
next
  case (Cons p ps)
  show ?case
  proof (cases "srcIP p = s")
    case True
    have d: "dsts_of (scan_step m p) s = set_add (dstIP p) (dsts_of m s)"
      using True by (simp add: dsts_of_def[of "scan_step m p"] map_of_scan_step)
    show ?thesis
    proof (cases "s \<in> srcIP ` set ps")
      case in_rest: True
      then show ?thesis using True d by (simp add: Cons.IH add_all_Cons)
    next
      case False
      then have "filter (\<lambda>p. srcIP p = s) ps = []" by (auto simp: filter_empty_conv)
      then show ?thesis using True False d
        by (simp add: Cons.IH add_all_Cons map_of_scan_step, simp add: add_all_def)
    qed
  next
    case False
    then have "dsts_of (scan_step m p) s = dsts_of m s"
      by (simp add: dsts_of_def map_of_scan_step)
    then show ?thesis using False by (simp add: Cons.IH map_of_scan_step)
  qed
qed

lemma map_of_portScanSources:
  "map_of (portScanSources ps) s = Some ds \<Longrightarrow>
     distinct ds \<and> set ds = set (map dstIP (filter (\<lambda>p. srcIP p = s) ps))"
  by (auto simp: portScanSources_def map_of_foldl_scan_step dsts_of_def set_add_all
        distinct_add_all split: if_splits)

lemma portScanSources_None:
  "map_of (portScanSources ps) s = None \<Longrightarrow> filter (\<lambda>p. srcIP p = s) ps = []"
  by (auto simp: portScanSources_def map_of_foldl_scan_step filter_empty_conv split: if_splits)

lemma size_portScanSources:
  "(case map_of (portScanSources ps) s of None \<Rightarrow> 0 | Some ds \<Rightarrow> length ds) =
     card (set (map dstIP (filter (\<lambda>p. srcIP p = s) ps)))"
proof (cases "map_of (portScanSources ps) s")
  case None
  then show ?thesis using portScanSources_None[OF None] by simp
next
  case (Some ds)
  from map_of_portScanSources[OF Some] show ?thesis using Some
    by (metis distinct_card option.simps(5))
qed

lemma distinct_portScanSources: "distinct (map fst (portScanSources ps))"
  by (simp add: portScanSources_def distinct_foldl_scan_step)

lemma threats_on_end:
  "threats (on_end now (run_packets fs)) =
     map (\<lambda>(k, c). ddos_threat k c)
       (filter (\<lambda>(k, c). c > 100) (connectionCounts (run_packets fs))) @
     map (\<lambda>(s, ds). scan_threat s (length ds))
       (filter (\<lambda>(s, ds). length ds > 20) (portScanSources (packetDetails (run_packets fs))))"
  by (simp add: on_end_def Let_def ddos_loop_eq scan_loop_eq run_packets_def threats_foldl
        init_state_def)

lemma count_ddos_in_threats:
  "length (filter (\<lambda>t. t = ddos_threat k n) (threats (on_end now (run_packets fs)))) =
     (case map_of (connectionCounts (run_packets fs)) k of None \<Rightarrow> 0
      | Some c \<Rightarrow> if c = n \<and> c > 100 then 1 else 0)"
proof -
  let ?scans = "map (\<lambda>(s, ds). scan_threat s (length ds))
       (filter (\<lambda>(s, ds). length ds > 20) (portScanSources (packetDetails (run_packets fs))))"
  have "filter (\<lambda>t. t = ddos_threat k n) ?scans = []"
    by (auto simp: filter_empty_conv ddos_neq_scan[symmetric])
  moreover have "length (filter (\<lambda>t. t = ddos_threat k n)
      (map (\<lambda>(k, c). ddos_threat k c)
         (filter (\<lambda>(k, c). c > 100) (connectionCounts (run_packets fs))))) =
     (case map_of (connectionCounts (run_packets fs)) k of None \<Rightarrow> 0
      | Some c \<Rightarrow> if id c = n \<and> (\<lambda>(k, c). c > 100) (k, c) then 1 else 0)"
    by (rule count_mapped_entries) (simp_all add: distinct_connectionCounts ddos_threat_inj)
  ultimately show ?thesis by (simp add: threats_on_end split: option.splits)
qed

lemma count_scan_in_threats:
  "length (filter (\<lambda>t. t = scan_threat s n) (threats (on_end now (run_packets fs)))) =
     (case map_of (portScanSources (packetDetails (run_packets fs))) s of None \<Rightarrow> 0
      | Some ds \<Rightarrow> if length ds = n \<and> length ds > 20 then 1 else 0)"
proof -
  let ?ddos = "map (\<lambda>(k, c). ddos_threat k c)
       (filter (\<lambda>(k, c). c > 100) (connectionCounts (run_packets fs)))"
  have "filter (\<lambda>t. t = scan_threat s n) ?ddos = []"
    by (auto simp: filter_empty_conv ddos_neq_scan)
  moreover have "length (filter (\<lambda>t. t = scan_threat s n)
      (map (\<lambda>(s, ds). scan_threat s (length ds))
         (filter (\<lambda>(s, ds). length ds > 20) (portScanSources (packetDetails (run_packets fs)))))) =
     (case map_of (portScanSources (packetDetails (run_packets fs))) s of None \<Rightarrow> 0
      | Some ds \<Rightarrow> if length ds = n \<and> (\<lambda>(s, ds). length ds > 20) (s, ds) then 1 else 0)"
    by (rule count_mapped_entries) (simp_all add: distinct_portScanSources scan_threat_inj)
  ultimately show ?thesis by (simp add: threats_on_end split: option.splits)
qed

text \<open>
  Claim C1. In every run and for every connection key of \<^verbatim>\<open>connectionCounts\<close>, whose count
  is the number of entries of \<^verbatim>\<open>packetDetails\<close> on that connection, the threats hold the
  "Potential DDoS" finding that names the connection and a count n exactly once when n is
  the connection's count and it exceeds 100, and not at all otherwise: none at 100, one
  at 101.
\<close>

theorem ddos_finding_iff_over_100:
  assumes "map_of (connectionCounts (run_packets fs)) k = Some c"
  shows "c = length (filter (\<lambda>p. key_of p = k) (packetDetails (run_packets fs))) \<and>
         length (filter (\<lambda>t. t = ddos_threat k n) (threats (on_end now (run_packets fs)))) =
           (if n = c \<and> c > 100 then 1 else 0)"
proof
  show "c = length (filter (\<lambda>p. key_of p = k) (packetDetails (run_packets fs)))"
    using assms by (simp add: map_of_connectionCounts Let_def split: if_splits)
  show "length (filter (\<lambda>t. t = ddos_threat k n) (threats (on_end now (run_packets fs)))) =
           (if n = c \<and> c > 100 then 1 else 0)"
    using assms by (auto simp: count_ddos_in_threats)
qed

text \<open>
  Claim C2. In every run and for every source address, the threats hold the
  "Potential Port Scan" finding that names the source and a count n exactly once when n
  is the number of distinct destinations among the source's entries of \<^verbatim>\<open>packetDetails\<close>
  and it exceeds 20, and not at all otherwise: none at 20, one at 21.
\<close>

theorem scan_finding_iff_over_20:
  "length (filter (\<lambda>t. t = scan_threat s n) (threats (on_end now (run_packets fs)))) =
     (if n = card (set (map dstIP (filter (\<lambda>p. srcIP p = s) (packetDetails (run_packets fs)))))
         \<and> n > 20 then 1 else 0)"
proof -
  define N where
    "N = card (set (map dstIP (filter (\<lambda>p. srcIP p = s) (packetDetails (run_packets fs)))))"
  have sz: "(case map_of (portScanSources (packetDetails (run_packets fs))) s of
               None \<Rightarrow> 0 | Some ds \<Rightarrow> length ds) = N"
    unfolding N_def by (rule size_portScanSources)
  have "length (filter (\<lambda>t. t = scan_threat s n) (threats (on_end now (run_packets fs)))) =
          (if n = N \<and> n > 20 then 1 else 0)"
    using sz by (auto simp: count_scan_in_threats split: option.splits)
  then show ?thesis unfolding N_def .
qed

subsection \<open>Runs on the sample frames\<close>

lemmas eval_defs = decode_def ip_frame_def readUInt16BE_def index_def dotted_def
       tmpl_byte_def protoName_def packetLength_def show_nat.simps digit_char_def

lemma decode_tcp_frame:
  "decode tcp_frame =
     Some \<lparr>srcIP = ''10.0.0.1'', dstIP = ''10.0.0.2'', protocol = ''TCP'', packetSize = 34\<rparr>"
  by (simp add: tcp_frame_def eval_defs)

lemma decode_short_ipv4_frame:
  "decode short_ipv4_frame =
     Some \<lparr>srcIP = ''undefined.undefined.undefined.undefined'',
           dstIP = ''undefined.undefined.undefined.undefined'',
           protocol = ''Unknown (undefined)'', packetSize = 14\<rparr>"
  by (simp add: short_ipv4_frame_def eval_defs)

lemma decode_tiny_frame: "decode tiny_frame = None"
  by (simp add: tiny_frame_def eval_defs)

lemma decode_arp_frame: "decode arp_frame = None"
  by (simp add: arp_frame_def eval_defs)

lemma map_filter_replicate:
  "f x = Some y \<Longrightarrow> List.map_filter f (replicate n x) = replicate n y"
  by (induction n) simp_all

lemma foldl_bump_replicate:
  "foldl bump [] (replicate (Suc n) k) = [(k, Suc n)]"
proof (induction n)
  case 0
  show ?case by (simp add: bump_def count_or_zero_def)
next
  case (Suc n)
  have "replicate (Suc (Suc n)) k = replicate (Suc n) k @ [k]"
    by (simp add: replicate_append_same)
  then have "foldl bump [] (replicate (Suc (Suc n)) k) =
             bump (foldl bump [] (replicate (Suc n) k)) k"
    by (simp only: foldl_append foldl.simps)
  also have "\<dots> = bump [(k, Suc n)] k" by (simp only: Suc.IH)
  also have "\<dots> = [(k, Suc (Suc n))]" by (simp add: bump_def count_or_zero_def)
  finally show ?case .
qed

lemma connectionCounts_replicate:
  "decode f = Some p \<Longrightarrow>
     connectionCounts (run_packets (replicate (Suc n) f)) = [(key_of p, Suc n)]"
  using foldl_bump_replicate[of n "key_of p"]
  by (simp add: run_packets_def connectionCounts_foldl init_state_def map_filter_replicate
        del: replicate_Suc)

lemma key_of_tcp:
  "key_of \<lparr>srcIP = ''10.0.0.1'', dstIP = ''10.0.0.2'', protocol = ''TCP'', packetSize = 34\<rparr> =
     ''10.0.0.1->10.0.0.2''"
  by (simp add: key_of_def connectionKey_def)

lemma counts_tcp_101:
  "map_of (connectionCounts (run_packets (replicate 101 tcp_frame))) ''10.0.0.1->10.0.0.2'' = Some 101"
  using connectionCounts_replicate[OF decode_tcp_frame, of 100] by (simp add: key_of_tcp)

lemma counts_tcp_100:
  "map_of (connectionCounts (run_packets (replicate 100 tcp_frame))) ''10.0.0.1->10.0.0.2'' = Some 100"
  using connectionCounts_replicate[OF decode_tcp_frame, of 99] by (simp add: key_of_tcp)

text \<open>
  The boundary of claim C1 on a run: 100 frames of one TCP connection give no DDoS
  finding, 101 give exactly one.
\<close>

theorem ddos_boundary_100_101:
  "map_of (connectionCounts (run_packets (replicate 100 tcp_frame))) ''10.0.0.1->10.0.0.2'' = Some 100 \<and>
   length (filter (\<lambda>t. t = ddos_threat ''10.0.0.1->10.0.0.2'' 100)
             (threats (on_end ''t'' (run_packets (replicate 100 tcp_frame))))) = 0 \<and>
   map_of (connectionCounts (run_packets (replicate 101 tcp_frame))) ''10.0.0.1->10.0.0.2'' = Some 101 \<and>
   length (filter (\<lambda>t. t = ddos_threat ''10.0.0.1->10.0.0.2'' 101)
             (threats (on_end ''t'' (run_packets (replicate 101 tcp_frame))))) = 1"
  using ddos_finding_iff_over_100[OF counts_tcp_100, of 100 "''t''"]
        ddos_finding_iff_over_100[OF counts_tcp_101, of 101 "''t''"]
        counts_tcp_100 counts_tcp_101
  by simp

lemma show_nat_small: "show_nat 0 = ''0''" "show_nat (Suc 0) = ''1''" "show_nat 10 = ''10''"
  by (simp_all add: show_nat.simps[of 0] show_nat.simps[of "Suc 0"] show_nat.simps[of 10]
        digit_char_def)

lemma decode_probe_frame:
  "decode (probe_frame d) =
     Some \<lparr>srcIP = ''10.0.0.1'', dstIP = ''10.0.1.'' @ show_nat (unat d), protocol = ''UDP'',
           packetSize = 34\<rparr>"
  by (simp add: probe_frame_def decode_def ip_frame_def readUInt16BE_def index_def dotted_def
        tmpl_byte_def protoName_def packetLength_def show_nat_small)

lemma dsts_of_probes:
  "map dstIP (filter (\<lambda>p. srcIP p = ''10.0.0.1'') (List.map_filter decode (map probe_frame ds))) =
     map (\<lambda>d. ''10.0.1.'' @ show_nat (unat d)) ds"
  by (induction ds) (simp_all add: decode_probe_frame)

lemma card_dsts_of_probes:
  assumes "distinct ds"
  shows "card (set (map dstIP (filter (\<lambda>p. srcIP p = ''10.0.0.1'')
                     (packetDetails (run_packets (map probe_frame ds)))))) = length ds"
proof -
  have "inj (\<lambda>d::byte. ''10.0.1.'' @ show_nat (unat d))"
    by (rule injI) (auto dest!: show_nat_inj simp: word_unat_eq_iff)
  then have "distinct (map (\<lambda>d. ''10.0.1.'' @ show_nat (unat d)) ds)"
    using assms by (simp add: distinct_map inj_on_def)
  then have "card (set (map (\<lambda>d. ''10.0.1.'' @ show_nat (unat d)) ds)) = length ds"
    by (simp only: distinct_card length_map)
  then show ?thesis
    by (simp only: run_packets_def packetDetails_foldl init_state_def dsts_of_probes
          run_vars.simps append_Nil select_convs)
qed

text \<open>
  The boundary of claim C2 on a run: one source probing 20 distinct destinations gives
  no scan finding, probing 21 gives exactly one.
\<close>

theorem scan_boundary_20_21:
  "length (filter (\<lambda>t. t = scan_threat ''10.0.0.1'' 20)
             (threats (on_end ''t'' (run_packets (map probe_frame (butlast dests21)))))) = 0 \<and>
   length (filter (\<lambda>t. t = scan_threat ''10.0.0.1'' 21)
             (threats (on_end ''t'' (run_packets (map probe_frame dests21))))) = 1"
proof -
  have d21: "distinct dests21" and l21: "length dests21 = 21"
    by (simp_all add: dests21_def)
  have d20: "distinct (butlast dests21)" and l20: "length (butlast dests21) = 20"
    using d21 l21 by (simp_all add: distinct_butlast)
  show ?thesis
    using scan_finding_iff_over_20[of "''10.0.0.1''" 20 "''t''" "map probe_frame (butlast dests21)"]
          scan_finding_iff_over_20[of "''10.0.0.1''" 21 "''t''" "map probe_frame dests21"]
    by (simp only: card_dsts_of_probes[OF d21] card_dsts_of_probes[OF d20] l20 l21) simp
qed

subsection \<open>Frames that yield no entry\<close>

lemma readUInt16BE_short: "length buf < 14 \<Longrightarrow> readUInt16BE buf 12 = Inl RangeError"
  by (auto simp: readUInt16BE_def index_def split: option.splits)

text \<open>
  Claim C5. A frame with fewer than 14 bytes (the read of the ethertype throws inside the
  \<^verbatim>\<open>try\<close> block and the \<^verbatim>\<open>catch\<close> drops the exception), or one whose ethertype is not
  0x0800, only increments \<^verbatim>\<open>totalPackets\<close>: the handler returns normally, nothing is
  appended to \<^verbatim>\<open>packetDetails\<close> and \<^verbatim>\<open>connectionCounts\<close> is unchanged.
\<close>

theorem unrecognized_frame_only_counted:
  assumes "length (data pkt) < 14 \<or> readUInt16BE (data pkt) 12 \<noteq> Inr 0x0800"
  shows "on_packet st pkt = st\<lparr>totalPackets := totalPackets st + 1\<rparr> \<and> decode pkt = None"
proof -
  have ne: "readUInt16BE (data pkt) 12 \<noteq> Inr 0x0800"
    using assms readUInt16BE_short[of "data pkt"] by auto
  then show ?thesis
    by (cases "readUInt16BE (data pkt) 12")
       (simp_all add: on_packet_def try_block_def decode_def Let_def)
qed

text \<open>
  Claim C5 on a 3-byte fragment and on an ARP frame.
\<close>

theorem unrecognized_frame_witness:
  "length (data tiny_frame) < 14 \<and>
   try_block init_state tiny_frame = Inl RangeError \<and>
   on_packet init_state tiny_frame = init_state\<lparr>totalPackets := 1\<rparr> \<and>
   readUInt16BE (data arp_frame) 12 = Inr 0x0806 \<and>
   on_packet init_state arp_frame = init_state\<lparr>totalPackets := 1\<rparr>"
proof -
  have a: "length (data tiny_frame) < 14" by (simp add: tiny_frame_def)
  have b: "readUInt16BE (data arp_frame) 12 = Inr 0x0806"
    by (simp add: arp_frame_def readUInt16BE_def index_def)
  have c: "try_block init_state tiny_frame = Inl RangeError"
    by (simp add: try_block_def readUInt16BE_short[OF a])
  from a have a': "length (data tiny_frame) < 14 \<or> readUInt16BE (data tiny_frame) 12 \<noteq> Inr 0x0800"
    by simp
  from b have b': "length (data arp_frame) < 14 \<or> readUInt16BE (data arp_frame) 12 \<noteq> Inr 0x0800"
    by simp
  show ?thesis
    using unrecognized_frame_only_counted[OF a', of init_state]
          unrecognized_frame_only_counted[OF b', of init_state] a b c
    by (simp add: init_state_def)
qed

subsection \<open>An IPv4 frame cut short\<close>

text \<open>
  Claim C9. A 14-byte frame whose ethertype reads 0x0800 is not skipped: the handler
  appends an entry whose addresses are made of the text "undefined", whose protocol is
  "Unknown (undefined)", and counts the connection, without any error.
\<close>

theorem short_ipv4_frame_decoded:
  "length (data short_ipv4_frame) = 14 \<and>
   readUInt16BE (data short_ipv4_frame) 12 = Inr 0x0800 \<and>
   on_packet init_state short_ipv4_frame =
     \<lparr>totalPackets = 1,
      packetDetails = [\<lparr>srcIP = ''undefined.undefined.undefined.undefined'',
                        dstIP = ''undefined.undefined.undefined.undefined'',
                        protocol = ''Unknown (undefined)'', packetSize = 14\<rparr>],
      threats = [],
      connectionCounts =
        [(''undefined.undefined.undefined.undefined->undefined.undefined.undefined.undefined'', 1)]\<rparr>"
  by (simp add: short_ipv4_frame_def on_packet_def try_block_def init_state_def readUInt16BE_def
        index_def dotted_def tmpl_byte_def protoName_def packetLength_def connectionKey_def
        count_or_zero_def Let_def)

subsection \<open>The aggregation state\<close>

lemma packetDetails_run: "packetDetails (run_packets fs) = List.map_filter decode fs"
  by (simp add: run_packets_def packetDetails_foldl init_state_def)

lemma decode_unknown_frame:
  "decode (ip_frame 2 [10, 0, 0, 1] [10, 0, 0, 2]) =
     Some \<lparr>srcIP = ''10.0.0.1'', dstIP = ''10.0.0.2'', protocol = ''Unknown (2)'',
           packetSize = 34\<rparr>"
  by (simp add: eval_defs)

lemma spec_protoName_2: "spec_protoName 2 = ''Unknown(2)''"
  by (simp add: spec_protoName_def show_nat.simps[of 2] digit_char_def)

lemma count_or_zero_bump:
  "count_or_zero (bump cc k') k = count_or_zero cc k + (if k' = k then 1 else 0)"
  by (simp add: count_or_zero_def[of "bump cc k'"] map_of_bump) (simp add: count_or_zero_def)

lemma keys_bump: "fst ` set (bump cc k) = {k} \<union> fst ` set cc"
  by (simp add: bump_def dom_update)

lemma dsts_of_scan_step:
  "dsts_of (scan_step m p) s =
     (if srcIP p = s then set_add (dstIP p) (dsts_of m s) else dsts_of m s)"
  by (simp add: dsts_of_def[of "scan_step m p"] map_of_scan_step) (simp add: dsts_of_def)

lemma keys_scan_step: "fst ` set (scan_step m p) = {srcIP p} \<union> fst ` set m"
  by (simp add: scan_step_def Let_def dom_update)


lemma threats_run: "threats (run_packets fs) = []"
  by (simp add: run_packets_def threats_foldl init_state_def)

lemma connectionCounts_run:
  "connectionCounts (run_packets fs) = foldl bump [] (map key_of (List.map_filter decode fs))"
  by (simp add: run_packets_def connectionCounts_foldl init_state_def)

lemma keys_foldl_scan_step:
  "fst ` set (foldl scan_step m ps) = fst ` set m \<union> srcIP ` set ps"
  by (induction ps arbitrary: m) (auto simp: keys_scan_step)

lemma dsts_of_portScanSources:
  "dsts_of (portScanSources ps) s = add_all [] (map dstIP (filter (\<lambda>p. srcIP p = s) ps))"
proof -
  have m: "map_of (portScanSources ps) s =
             (if s \<in> srcIP ` set ps
              then Some (add_all [] (map dstIP (filter (\<lambda>p. srcIP p = s) ps))) else None)"
    unfolding portScanSources_def map_of_foldl_scan_step by (simp add: dsts_of_def)
  show ?thesis
  proof (cases "s \<in> srcIP ` set ps")
    case True
    then show ?thesis unfolding dsts_of_def m by simp
  next
    case False
    then have "filter (\<lambda>p. srcIP p = s) ps = []" by (auto simp: filter_empty_conv)
    then show ?thesis using False unfolding dsts_of_def m by (simp add: add_all_def)
  qed
qed

lemma count_or_zero_run:
  "count_or_zero (connectionCounts (run_packets fs)) k =
     length (filter (\<lambda>p. key_of p = k) (packetDetails (run_packets fs)))"
  by (simp add: count_or_zero_def map_of_connectionCounts Let_def)

lemma map_filter_append:
  "List.map_filter f (xs @ ys) = List.map_filter f xs @ List.map_filter f ys"
  by (induction xs) (simp_all split: option.splits)

lemma map_filter_take_prefix:
  "\<exists>rest. List.map_filter f xs = List.map_filter f (take i xs) @ rest"
proof -
  have "List.map_filter f xs = List.map_filter f (take i xs @ drop i xs)"
    by (simp only: append_take_drop_id)
  also have "\<dots> = List.map_filter f (take i xs) @ List.map_filter f (drop i xs)"
    by (rule map_filter_append)
  finally show ?thesis by blast
qed

lemma count_prefix_le:
  "count_or_zero (connectionCounts (run_packets (take i fs))) k
     \<le> count_or_zero (connectionCounts (run_packets fs)) k"
proof -
  obtain rest where "List.map_filter decode fs = List.map_filter decode (take i fs) @ rest"
    using map_filter_take_prefix by blast
  then show ?thesis by (simp add: count_or_zero_run packetDetails_run)
qed

lemma dsts_prefix_subset:
  "set (dsts_of (portScanSources (take i ps)) s) \<subseteq> set (dsts_of (portScanSources ps) s)"
proof -
  have "set (take i ps) \<subseteq> set ps" by (rule set_take_subset)
  then show ?thesis by (auto simp: dsts_of_portScanSources set_add_all)
qed

lemma run_packets_snoc: "run_packets (fs @ [f]) = on_packet (run_packets fs) f"
  by (simp add: run_packets_def)

lemma portScanSources_snoc: "portScanSources (ps @ [q]) = scan_step (portScanSources ps) q"
  by (simp add: portScanSources_def)

text \<open>
  Claim C7. A packet event changes the count of a connection by exactly one when it
  appends an entry for that connection and leaves it unchanged otherwise, and removes no
  key; a step of the \<^verbatim>\<open>forEach\<close> adds the entry's destination to the set of the entry's
  source, changes no other set, keeps a set free of repetitions and removes no key. The
  states of a run are reached by these steps, one per frame and one per entry. So after a
  run \<^verbatim>\<open>connectionCounts\<close> is the result of one increment per entry of \<^verbatim>\<open>packetDetails\<close>,
  in order, and every key of it has a positive count, the number of entries on that
  connection; the set of a source in \<^verbatim>\<open>portScanSources\<close> is the result of one \<^verbatim>\<open>add\<close> per
  entry of that source, in order, it holds the destinations of those entries and no
  other, each once, and the sources are those of the entries; the counts and the sets
  at any earlier point of the run are below the final ones; and the findings of the end
  handler are computed from these two aggregates.
\<close>

theorem aggregation_monotone:
  "count_or_zero (connectionCounts (on_packet st pkt)) k =
     count_or_zero (connectionCounts st) k +
     (case decode pkt of None \<Rightarrow> 0 | Some p \<Rightarrow> if key_of p = k then 1 else 0) \<and>
   fst ` set (connectionCounts st) \<subseteq> fst ` set (connectionCounts (on_packet st pkt)) \<and>
   set (dsts_of (scan_step m q) s) =
     set (dsts_of m s) \<union> (if srcIP q = s then {dstIP q} else {}) \<and>
   fst ` set m \<subseteq> fst ` set (scan_step m q) \<and>
   (map_of (connectionCounts (run_packets fs)) k = Some c \<longrightarrow>
      0 < c \<and> c = length (filter (\<lambda>p. key_of p = k) (packetDetails (run_packets fs)))) \<and>
   (distinct (dsts_of m s) \<longrightarrow> distinct (dsts_of (scan_step m q) s)) \<and>
   run_packets (fs @ [pkt]) = on_packet (run_packets fs) pkt \<and>
   portScanSources (packetDetails (run_packets fs) @ [q]) =
     scan_step (portScanSources (packetDetails (run_packets fs))) q \<and>
   connectionCounts (run_packets fs) =
     foldl bump [] (map key_of (packetDetails (run_packets fs))) \<and>
   dsts_of (portScanSources (packetDetails (run_packets fs))) s =
     add_all [] (map dstIP (filter (\<lambda>p. srcIP p = s) (packetDetails (run_packets fs)))) \<and>
   distinct (dsts_of (portScanSources (packetDetails (run_packets fs))) s) \<and>
   set (dsts_of (portScanSources (packetDetails (run_packets fs))) s) =
     set (map dstIP (filter (\<lambda>p. srcIP p = s) (packetDetails (run_packets fs)))) \<and>
   fst ` set (portScanSources (packetDetails (run_packets fs))) =
     srcIP ` set (packetDetails (run_packets fs)) \<and>
   count_or_zero (connectionCounts (run_packets (take i fs))) k
     \<le> count_or_zero (connectionCounts (run_packets fs)) k \<and>
   set (dsts_of (portScanSources (take i (packetDetails (run_packets fs)))) s)
     \<subseteq> set (dsts_of (portScanSources (packetDetails (run_packets fs))) s) \<and>
   threats (on_end now (run_packets fs)) =
     scan_loop (ddos_loop [] (connectionCounts (run_packets fs)))
       (portScanSources (packetDetails (run_packets fs)))"
proof (intro conjI impI)
  show "count_or_zero (connectionCounts (on_packet st pkt)) k =
     count_or_zero (connectionCounts st) k +
     (case decode pkt of None \<Rightarrow> 0 | Some p \<Rightarrow> if key_of p = k then 1 else 0)"
    by (simp add: connectionCounts_on_packet count_or_zero_bump split: option.splits)
  show "fst ` set (connectionCounts st) \<subseteq> fst ` set (connectionCounts (on_packet st pkt))"
    by (cases "decode pkt") (simp_all add: connectionCounts_on_packet keys_bump subset_insertI)
  show "set (dsts_of (scan_step m q) s) =
     set (dsts_of m s) \<union> (if srcIP q = s then {dstIP q} else {})"
    by (auto simp: dsts_of_scan_step set_add_def)
  show "fst ` set m \<subseteq> fst ` set (scan_step m q)"
    by (simp add: keys_scan_step subset_insertI)
  show "distinct (dsts_of m s) \<Longrightarrow> distinct (dsts_of (scan_step m q) s)"
    by (simp add: dsts_of_scan_step set_add_def)
  show "run_packets (fs @ [pkt]) = on_packet (run_packets fs) pkt"
    by (rule run_packets_snoc)
  show "portScanSources (packetDetails (run_packets fs) @ [q]) =
     scan_step (portScanSources (packetDetails (run_packets fs))) q"
    by (rule portScanSources_snoc)
  show "connectionCounts (run_packets fs) =
     foldl bump [] (map key_of (packetDetails (run_packets fs)))"
    by (simp add: connectionCounts_run packetDetails_run)
  show "dsts_of (portScanSources (packetDetails (run_packets fs))) s =
     add_all [] (map dstIP (filter (\<lambda>p. srcIP p = s) (packetDetails (run_packets fs))))"
    by (rule dsts_of_portScanSources)
  show "distinct (dsts_of (portScanSources (packetDetails (run_packets fs))) s)"
    by (simp add: dsts_of_portScanSources distinct_add_all)
  show "set (dsts_of (portScanSources (packetDetails (run_packets fs))) s) =
     set (map dstIP (filter (\<lambda>p. srcIP p = s) (packetDetails (run_packets fs))))"
    by (simp add: dsts_of_portScanSources set_add_all)
  show "fst ` set (portScanSources (packetDetails (run_packets fs))) =
     srcIP ` set (packetDetails (run_packets fs))"
    by (simp add: portScanSources_def keys_foldl_scan_step)
  show "count_or_zero (connectionCounts (run_packets (take i fs))) k
     \<le> count_or_zero (connectionCounts (run_packets fs)) k"
    by (rule count_prefix_le)
  show "set (dsts_of (portScanSources (take i (packetDetails (run_packets fs)))) s)
     \<subseteq> set (dsts_of (portScanSources (packetDetails (run_packets fs))) s)"
    by (rule dsts_prefix_subset)
  show "threats (on_end now (run_packets fs)) =
     scan_loop (ddos_loop [] (connectionCounts (run_packets fs)))
       (portScanSources (packetDetails (run_packets fs)))"
    by (simp add: on_end_def Let_def threats_run)
next
  assume a: "map_of (connectionCounts (run_packets fs)) k = Some c"
  then show "0 < c"
    by (auto simp: map_of_connectionCounts Let_def split: if_splits)
  from a show "c = length (filter (\<lambda>p. key_of p = k) (packetDetails (run_packets fs)))"
    by (simp add: map_of_connectionCounts Let_def split: if_splits)
qed

lemma decode_probe_5:
  "decode (probe_frame 5) =
     Some \<lparr>srcIP = ''10.0.0.1'', dstIP = ''10.0.1.5'', protocol = ''UDP'', packetSize = 34\<rparr>"
  by (simp add: decode_probe_frame show_nat.simps[of 5] digit_char_def)

lemma details_tcp_probe:
  "packetDetails (run_packets [tcp_frame, probe_frame 5]) =
     [\<lparr>srcIP = ''10.0.0.1'', dstIP = ''10.0.0.2'', protocol = ''TCP'', packetSize = 34\<rparr>,
      \<lparr>srcIP = ''10.0.0.1'', dstIP = ''10.0.1.5'', protocol = ''UDP'', packetSize = 34\<rparr>]"
  by (simp add: packetDetails_run decode_tcp_frame decode_probe_5)

lemma counts_tcp_probe:
  "connectionCounts (run_packets [tcp_frame, probe_frame 5]) =
     [(''10.0.0.1->10.0.0.2'', 1), (''10.0.0.1->10.0.1.5'', 1)]"
  by (simp add: connectionCounts_run decode_tcp_frame decode_probe_5 key_of_def
        connectionKey_def bump_def count_or_zero_def)

lemma counts_tcp_once:
  "connectionCounts (run_packets [tcp_frame]) = [(''10.0.0.1->10.0.0.2'', 1)]"
  by (simp add: connectionCounts_run decode_tcp_frame key_of_def connectionKey_def bump_def
        count_or_zero_def)

text \<open>
  Claim C7 on a run of a TCP frame and a UDP probe from the same source, and on a
  \<^verbatim>\<open>forEach\<close> step from the map that holds the first destination.
\<close>

theorem aggregation_monotone_witness:
  "map_of (connectionCounts (run_packets [tcp_frame, probe_frame 5])) ''10.0.0.1->10.0.0.2'' = Some 1 \<and>
   (1::nat) = length (filter (\<lambda>p. key_of p = ''10.0.0.1->10.0.0.2'')
                  (packetDetails (run_packets [tcp_frame, probe_frame 5]))) \<and>
   count_or_zero (connectionCounts (on_packet (run_packets [tcp_frame]) tcp_frame))
     ''10.0.0.1->10.0.0.2'' = 2 \<and>
   distinct (dsts_of [(''10.0.0.1'', [''10.0.0.2''])] ''10.0.0.1'') \<and>
   distinct (dsts_of (scan_step [(''10.0.0.1'', [''10.0.0.2''])]
       \<lparr>srcIP = ''10.0.0.1'', dstIP = ''10.0.1.5'', protocol = ''UDP'', packetSize = 34\<rparr>)
     ''10.0.0.1'') \<and>
   set (dsts_of (scan_step [(''10.0.0.1'', [''10.0.0.2''])]
       \<lparr>srcIP = ''10.0.0.1'', dstIP = ''10.0.1.5'', protocol = ''UDP'', packetSize = 34\<rparr>)
     ''10.0.0.1'') = {''10.0.0.2'', ''10.0.1.5''} \<and>
   dsts_of (portScanSources (packetDetails (run_packets [tcp_frame, probe_frame 5]))) ''10.0.0.1'' =
     [''10.0.0.2'', ''10.0.1.5'']"
proof -
  note inst = aggregation_monotone[of "run_packets [tcp_frame]" tcp_frame "''10.0.0.1->10.0.0.2''"
      "[(''10.0.0.1'', [''10.0.0.2''])]"
      "\<lparr>srcIP = ''10.0.0.1'', dstIP = ''10.0.1.5'', protocol = ''UDP'', packetSize = 34\<rparr>"
      "''10.0.0.1''" "[tcp_frame, probe_frame 5]" 1 1 "''t''"]
  have h1: "map_of (connectionCounts (run_packets [tcp_frame, probe_frame 5]))
              ''10.0.0.1->10.0.0.2'' = Some 1"
    by (simp add: counts_tcp_probe)
  have h2: "distinct (dsts_of [(''10.0.0.1'', [''10.0.0.2''])] ''10.0.0.1'')"
    by (simp add: dsts_of_def)
  have c1: "(1::nat) = length (filter (\<lambda>p. key_of p = ''10.0.0.1->10.0.0.2'')
                  (packetDetails (run_packets [tcp_frame, probe_frame 5])))"
    using inst h1 by blast
  have c2: "count_or_zero (connectionCounts (on_packet (run_packets [tcp_frame]) tcp_frame))
     ''10.0.0.1->10.0.0.2'' = 2"
    using inst by (simp add: counts_tcp_once decode_tcp_frame key_of_tcp count_or_zero_def)
  have c3: "distinct (dsts_of (scan_step [(''10.0.0.1'', [''10.0.0.2''])]
       \<lparr>srcIP = ''10.0.0.1'', dstIP = ''10.0.1.5'', protocol = ''UDP'', packetSize = 34\<rparr>)
     ''10.0.0.1'')"
    using inst h2 by blast
  have c4: "set (dsts_of (scan_step [(''10.0.0.1'', [''10.0.0.2''])]
       \<lparr>srcIP = ''10.0.0.1'', dstIP = ''10.0.1.5'', protocol = ''UDP'', packetSize = 34\<rparr>)
     ''10.0.0.1'') = {''10.0.0.2'', ''10.0.1.5''}"
  proof -
    from inst have "set (dsts_of (scan_step [(''10.0.0.1'', [''10.0.0.2''])]
       \<lparr>srcIP = ''10.0.0.1'', dstIP = ''10.0.1.5'', protocol = ''UDP'', packetSize = 34\<rparr>)
     ''10.0.0.1'') = set (dsts_of [(''10.0.0.1'', [''10.0.0.2''])] ''10.0.0.1'') \<union>
       (if srcIP \<lparr>srcIP = ''10.0.0.1'', dstIP = ''10.0.1.5'', protocol = ''UDP'', packetSize = 34\<rparr>
           = ''10.0.0.1''
        then {dstIP \<lparr>srcIP = ''10.0.0.1'', dstIP = ''10.0.1.5'', protocol = ''UDP'',
                      packetSize = 34\<rparr>} else {})"
      by blast
    then show ?thesis by (simp add: dsts_of_def insert_commute)
  qed
  have c5: "dsts_of (portScanSources (packetDetails (run_packets [tcp_frame, probe_frame 5])))
              ''10.0.0.1'' = [''10.0.0.2'', ''10.0.1.5'']"
  proof -
    from inst have "dsts_of (portScanSources (packetDetails (run_packets [tcp_frame, probe_frame 5])))
        ''10.0.0.1'' =
      add_all [] (map dstIP (filter (\<lambda>p. srcIP p = ''10.0.0.1'')
        (packetDetails (run_packets [tcp_frame, probe_frame 5]))))"
      by blast
    then show ?thesis by (simp add: details_tcp_probe add_all_def set_add_def)
  qed
  from h1 c1 c2 h2 c3 c4 c5 show ?thesis by blast
qed

subsection \<open>Decoding does not depend on the state\<close>

lemma packetLength_decoded:
  assumes "readUInt16BE (data pkt) 12 = Inr v"
  shows "packetLength pkt = length (data pkt)"
proof -
  have "\<not> length (data pkt) < 14"
    using assms readUInt16BE_short[of "data pkt"] by auto
  then show ?thesis by (auto simp: packetLength_def)
qed

lemma decode_bytes:
  "decode pkt =
     (case readUInt16BE (data pkt) 12 of
        Inl e \<Rightarrow> None
      | Inr ethertype \<Rightarrow>
          if ethertype = 0x0800 then
            Some \<lparr>srcIP = dotted (data pkt) 26, dstIP = dotted (data pkt) 30,
                  protocol = protoName (index (data pkt) 23),
                  packetSize = length (data pkt)\<rparr>
          else None)"
  by (cases "readUInt16BE (data pkt) 12") (simp_all add: decode_def packetLength_decoded)

lemma decode_data_only: "data pkt = data pkt' \<Longrightarrow> decode pkt = decode pkt'"
  by (simp add: decode_bytes split: sum.splits)

text \<open>
  Claim C8. What a packet event appends does not depend on the state it starts from;
  handling the same frame twice appends the same entry twice (or nothing twice); the
  entries of a run are the per-frame results, in order; and the result for a frame is
  determined by its bytes.
\<close>

theorem decode_stateless:
  "drop (length (packetDetails s1)) (packetDetails (on_packet s1 pkt)) =
     drop (length (packetDetails s2)) (packetDetails (on_packet s2 pkt)) \<and>
   packetDetails (on_packet (on_packet s1 pkt) pkt) =
     packetDetails s1 @ (case decode pkt of None \<Rightarrow> [] | Some p \<Rightarrow> [p, p]) \<and>
   packetDetails (run_packets fs) = List.map_filter decode fs \<and>
   (data pkt = data pkt' \<longrightarrow> decode pkt = decode pkt')"
proof (intro conjI impI)
  show "drop (length (packetDetails s1)) (packetDetails (on_packet s1 pkt)) =
     drop (length (packetDetails s2)) (packetDetails (on_packet s2 pkt))"
    by (simp add: packetDetails_on_packet)
  show "packetDetails (on_packet (on_packet s1 pkt) pkt) =
     packetDetails s1 @ (case decode pkt of None \<Rightarrow> [] | Some p \<Rightarrow> [p, p])"
    by (simp add: packetDetails_on_packet split: option.splits)
  show "packetDetails (run_packets fs) = List.map_filter decode fs"
    by (rule packetDetails_run)
  show "data pkt = data pkt' \<Longrightarrow> decode pkt = decode pkt'"
    by (rule decode_data_only)
qed

text \<open>
  Claim C8 on a TCP frame and the same bytes under another header.
\<close>

theorem decode_stateless_witness:
  "data tcp_frame = data (tcp_frame\<lparr>header := Some \<lparr>orig_len = Some 60\<rparr>\<rparr>) \<and>
   decode (tcp_frame\<lparr>header := Some \<lparr>orig_len = Some 60\<rparr>\<rparr>) =
     Some \<lparr>srcIP = ''10.0.0.1'', dstIP = ''10.0.0.2'', protocol = ''TCP'', packetSize = 34\<rparr>"
  using decode_stateless[of init_state tcp_frame init_state "[]"
          "tcp_frame\<lparr>header := Some \<lparr>orig_len = Some 60\<rparr>\<rparr>"]
  by (simp add: decode_tcp_frame)

subsection \<open>Protocol names\<close>

text \<open>
  Claim C4 as stated fails: for protocol byte 2 the entry reads "Unknown (2)", with a
  space, where the specification's wording gives "Unknown(2)"; and the 14-byte IPv4 frame
  yields "Unknown (undefined)", which names no number.
\<close>

theorem protoName_differs_from_spec:
  "map protocol (packetDetails (run_packets
       [ip_frame 2 [10, 0, 0, 1] [10, 0, 0, 2], short_ipv4_frame])) =
     [''Unknown (2)'', ''Unknown (undefined)''] \<and>
   spec_protoName 2 = ''Unknown(2)'' \<and>
   ''Unknown (2)'' \<noteq> spec_protoName 2"
  by (simp add: packetDetails_run decode_short_ipv4_frame decode_unknown_frame
        spec_protoName_2)

lemma protoName_in_names: "protoName v \<in> protocol_names"
proof (cases v)
  case None
  then show ?thesis by (simp add: protoName_def tmpl_byte_def protocol_names_def)
next
  case (Some b)
  show ?thesis
  proof (cases "b = 6 \<or> b = 17 \<or> b = 1")
    case True
    then show ?thesis using Some by (auto simp: protoName_def protocol_names_def)
  next
    case False
    have "unat b < 256" using unsigned_less[of b, where 'a = nat] by simp
    moreover have "unat b \<noteq> 1" "unat b \<noteq> 6" "unat b \<noteq> 17"
      using False by (auto simp: word_unat_eq_iff)
    ultimately have "unat b \<in> {0..<256} - {1, 6, 17}" by simp
    then have "''Unknown ('' @ show_nat (unat b) @ '')'' \<in>
               (\<lambda>n. ''Unknown ('' @ show_nat n @ '')'') ` ({0..<256} - {1, 6, 17})"
      by (rule imageI)
    then show ?thesis using Some False by (simp add: protoName_def tmpl_byte_def protocol_names_def)
  qed
qed

lemma map_filter_SomeD: "y \<in> set (List.map_filter f xs) \<Longrightarrow> \<exists>x\<in>set xs. f x = Some y"
  by (induction xs) (auto split: option.splits)

text \<open>
  Claim C4, amended. The protocol of an entry is \<open>protoName\<close> of the value at offset 23:
  6 gives TCP, 17 UDP, 1 ICMP, any other byte N gives "Unknown (N)" with a space before the
  parenthesis and N in decimal, and a missing byte gives "Unknown (undefined)"; so every
  entry of every run carries one of these names.
\<close>

theorem protocol_names_of_run:
  "(decode pkt = Some p \<longrightarrow> protocol p = protoName (index (data pkt) 23)) \<and>
   protoName None = ''Unknown (undefined)'' \<and>
   protoName (Some b) =
     (if b = 6 then ''TCP'' else if b = 17 then ''UDP'' else if b = 1 then ''ICMP''
      else ''Unknown ('' @ show_nat (unat b) @ '')'') \<and>
   (q \<in> set (packetDetails (run_packets fs)) \<longrightarrow> protocol q \<in> protocol_names)"
proof (intro conjI impI)
  show "decode pkt = Some p \<Longrightarrow> protocol p = protoName (index (data pkt) 23)"
    by (auto simp: decode_def split: sum.splits if_splits)
  show "protoName None = ''Unknown (undefined)''"
    by (simp add: protoName_def tmpl_byte_def)
  show "protoName (Some b) =
     (if b = 6 then ''TCP'' else if b = 17 then ''UDP'' else if b = 1 then ''ICMP''
      else ''Unknown ('' @ show_nat (unat b) @ '')'')"
    by (simp add: protoName_def tmpl_byte_def)
next
  assume "q \<in> set (packetDetails (run_packets fs))"
  then have "q \<in> set (List.map_filter decode fs)"
    by (simp add: packetDetails_run)
  then obtain f where "decode f = Some q" by (auto dest: map_filter_SomeD)
  then have "protocol q = protoName (index (data f) 23)"
    by (auto simp: decode_def split: sum.splits if_splits)
  then show "protocol q \<in> protocol_names" by (simp add: protoName_in_names)
qed

text \<open>
  Claim C4, amended, on a TCP frame.
\<close>

theorem protocol_names_witness:
  "decode tcp_frame =
     Some \<lparr>srcIP = ''10.0.0.1'', dstIP = ''10.0.0.2'', protocol = ''TCP'', packetSize = 34\<rparr> \<and>
   \<lparr>srcIP = ''10.0.0.1'', dstIP = ''10.0.0.2'', protocol = ''TCP'', packetSize = 34\<rparr>
     \<in> set (packetDetails (run_packets [tcp_frame])) \<and>
   protoName (index (data tcp_frame) 23) = ''TCP'' \<and>
   ''TCP'' \<in> protocol_names"
  using protocol_names_of_run[of tcp_frame
          "\<lparr>srcIP = ''10.0.0.1'', dstIP = ''10.0.0.2'', protocol = ''TCP'', packetSize = 34\<rparr>"
          6 "\<lparr>srcIP = ''10.0.0.1'', dstIP = ''10.0.0.2'', protocol = ''TCP'', packetSize = 34\<rparr>"
          "[tcp_frame]"]
  by (auto simp: decode_tcp_frame packetDetails_run)

subsection \<open>The parser on encoded records\<close>










subsection \<open>The answer of a request\<close>

























subsection \<open>A request after a refused capture\<close>




end
